theory Spec2Isabelle
  imports Main "HOL-Library.AList" "HOL-Library.Sublist"
begin

text \<open>
  A model of \<open>backend/main.py\<close>: the normalisation of spoken values and the three form
  tools with the state they share, the receive loop of the WebSocket transport, and the
  endpoint that sets a session up. The services the file calls (the model service, the
  pipeline runner, the socket) appear as the calls made on them and the outcomes they
  report.
\<close>

section \<open>Python text: \<open>str.lower\<close>, \<open>str.strip\<close> and the two \<open>re.sub\<close> patterns\<close>

text \<open>
  A Python \<open>str\<close> is modelled as a \<open>string\<close> whose characters stand for the Unicode code
  points 0 to 255 (the Latin-1 range); text with higher code points is outside the model.
  On this range \<open>str.isspace\<close>, the \<open>\s\<close> class of \<open>re\<close> and the default \<open>str.strip\<close> agree on
  the whitespace characters, \<open>\w\<close> is \<open>str.isalnum\<close> or the underscore, and \<open>str.lower\<close> maps
  every character to exactly one character.
\<close>

definition isspace :: "char \<Rightarrow> bool" where
  "isspace c = (let n = (of_char c :: nat) in
     (9 \<le> n \<and> n \<le> 13) \<or> (28 \<le> n \<and> n \<le> 32) \<or> n = 133 \<or> n = 160)"

definition isword :: "char \<Rightarrow> bool" where
  "isword c = (let n = (of_char c :: nat) in
     (48 \<le> n \<and> n \<le> 57) \<or> (65 \<le> n \<and> n \<le> 90) \<or> n = 95 \<or> (97 \<le> n \<and> n \<le> 122) \<or>
     n = 170 \<or> n = 178 \<or> n = 179 \<or> n = 181 \<or> n = 185 \<or> n = 186 \<or>
     (188 \<le> n \<and> n \<le> 190) \<or> (192 \<le> n \<and> n \<le> 214) \<or> (216 \<le> n \<and> n \<le> 246) \<or>
     (248 \<le> n \<and> n \<le> 255))"

definition lower_char :: "char \<Rightarrow> char" where
  "lower_char c = (let n = (of_char c :: nat) in
     if (65 \<le> n \<and> n \<le> 90) \<or> (192 \<le> n \<and> n \<le> 214) \<or> (216 \<le> n \<and> n \<le> 222)
     then char_of (n + 32) else c)"

definition lower :: "string \<Rightarrow> string" where
  "lower s = map lower_char s"

definition strip :: "string \<Rightarrow> string" where
  "strip s = rev (dropWhile isspace (rev (dropWhile isspace s)))"

text \<open>
  The regular expressions of \<open>fill_form_field\<close> use literals, \<open>\s+\<close>, \<open>\b\<close>, sequencing,
  alternation and one optional group. A position is the character before the cursor
  (\<open>None\<close> at the start of the text) and the text from the cursor on. \<open>rmatch\<close> lists the
  positions a match can end at, in the order the backtracking matcher of \<open>re\<close> tries them:
  a greedy \<open>+\<close> offers the longest run first, an alternation its left branch first, an
  optional group its body before the empty match. The head of the list is the match \<open>re\<close>
  reports.
\<close>

datatype regex =
    Lit string
  | Plus "char \<Rightarrow> bool"
  | WordB
  | Seq regex regex
  | Alt regex regex
  | Opt regex

type_synonym pos = "char option \<times> string"

fun plus_matches :: "(char \<Rightarrow> bool) \<Rightarrow> string \<Rightarrow> pos list" where
  "plus_matches c [] = []"
| "plus_matches c (x # xs) = (if c x then plus_matches c xs @ [(Some x, xs)] else [])"

definition at_boundary :: "pos \<Rightarrow> bool" where
  "at_boundary ps = (case ps of (p, s) \<Rightarrow>
     (case p of None \<Rightarrow> False | Some a \<Rightarrow> isword a) \<noteq>
     (case s of [] \<Rightarrow> False | b # _ \<Rightarrow> isword b))"

fun rmatch :: "regex \<Rightarrow> pos \<Rightarrow> pos list" where
  "rmatch (Lit w) ps = (case ps of (p, s) \<Rightarrow>
     if prefix w s then [(if w = [] then p else Some (last w), drop (length w) s)] else [])"
| "rmatch (Plus c) ps = plus_matches c (snd ps)"
| "rmatch WordB ps = (if at_boundary ps then [ps] else [])"
| "rmatch (Seq a b) ps = concat (map (rmatch b) (rmatch a ps))"
| "rmatch (Alt a b) ps = rmatch a ps @ rmatch b ps"
| "rmatch (Opt a) ps = rmatch a ps @ [ps]"

text \<open>
  \<open>re.sub\<close> scans the text from left to right: where the pattern matches, the replacement
  is emitted and the scan goes on after the match; elsewhere one character is copied.
  Neither pattern of this program can match the empty string (lemmas
  \<open>at_the_rate_re_consumes\<close> and \<open>intro_re_consumes\<close>), so \<open>first_match\<close> only reports
  matches that consume text.
\<close>

definition first_match :: "regex \<Rightarrow> pos \<Rightarrow> pos option" where
  "first_match r ps = (case rmatch r ps of
       [] \<Rightarrow> None
     | q # _ \<Rightarrow> if length (snd q) < length (snd ps) then Some q else None)"

function re_sub_from :: "regex \<Rightarrow> string \<Rightarrow> pos \<Rightarrow> string" where
  "re_sub_from r repl ps =
     (case first_match r ps of
        Some q \<Rightarrow> repl @ re_sub_from r repl q
      | None \<Rightarrow> (case snd ps of [] \<Rightarrow> [] | c # cs \<Rightarrow> c # re_sub_from r repl (Some c, cs)))"
  by pat_completeness auto
termination
  by (relation "measure (\<lambda>(r, repl, ps). length (snd ps))")
     (auto simp: first_match_def split: list.splits if_splits)

definition re_sub :: "regex \<Rightarrow> string \<Rightarrow> string \<Rightarrow> string" where
  "re_sub r repl text = re_sub_from r repl (None, text)"

text \<open>The pattern \<^verbatim>\<open>\s+at\s+the\s+rate(\s+of)?\s+\<close>.\<close>

definition at_the_rate_re :: regex where
  "at_the_rate_re =
     Seq (Plus isspace) (Seq (Lit ''at'') (Seq (Plus isspace) (Seq (Lit ''the'')
       (Seq (Plus isspace) (Seq (Lit ''rate'')
         (Seq (Opt (Seq (Plus isspace) (Lit ''of''))) (Plus isspace)))))))"


definition intro_re :: regex where
  "intro_re =
     Seq WordB (Seq (Alt (Lit ''my name is'') (Alt (Lit ''name is'') (Alt (Lit ''i am'') (Lit ''i'm''))))
       WordB)"

text \<open>Lines 155 to 157 of \<open>fill_form_field\<close>: the three assignments to \<open>text\<close>.\<close>

definition normalize :: "string \<Rightarrow> string" where
  "normalize v =
     (let text = strip (lower v);
          text = re_sub at_the_rate_re ''@'' text;
          text = strip (re_sub intro_re [] text)
      in text)"







section \<open>Form state and the session\<close>

text \<open>
  Dictionaries are objects on a heap, since \<open>FormState.open\<close> clears \<open>fields\<close> in place
  while \<open>FormState.dump\<close> builds a new dictionary. A dictionary is an association list in
  insertion order with unique keys; \<open>AList.update\<close> is Python's item assignment (an
  existing key keeps its place, a new key goes to the end). The values this program
  stores are \<open>None\<close> or a \<open>str\<close>. A response dictionary holds such values, or a reference
  to a dictionary on the heap (the \<open>data\<close> of \<open>submit_form\<close>). The attribute
  \<open>fields\<close> of \<open>FormState\<close> is the address \<open>fields_ref\<close> of its dictionary.
\<close>

type_synonym addr = nat

datatype atom = ANone | AStr string

type_synonym pydict = "(string \<times> atom) list"

datatype rval = RAtom atom | RDict addr

type_synonym resp = "(string \<times> rval) list"

datatype json = JNull | JStr string | JObj "(string \<times> json) list"

record FormState =
  form_type :: "string option"
  fields_ref :: addr

text \<open>
  The part of a session the tool handlers see: the heap, the \<open>form_state\<close> closed over,
  the values passed to \<open>params.result_callback\<close> (in call order) and the JSON documents
  written by \<open>ws.send_json\<close> (in call order, serialised when sent). Both calls are taken to
  return normally. Latency logging is not modelled.
\<close>

record session =
  heap :: "addr \<Rightarrow> pydict"
  next_addr :: addr
  form_state :: FormState
  model_results :: "resp list"
  ws_sent :: "json list"

definition alloc :: "pydict \<Rightarrow> session \<Rightarrow> addr \<times> session" where
  "alloc d s = (next_addr s, s\<lparr>heap := (heap s)(next_addr s := d), next_addr := Suc (next_addr s)\<rparr>)"

text \<open>\<open>form_state = FormState()\<close>: no form type, and a fresh empty \<open>fields\<close> dictionary.\<close>

definition initial_session :: session where
  "initial_session =
     \<lparr>heap = (\<lambda>_. []), next_addr = 1, form_state = \<lparr>form_type = None, fields_ref = 0\<rparr>,
      model_results = [], ws_sent = []\<rparr>"

definition FormState_open :: "session \<Rightarrow> session" where
  "FormState_open s =
     s\<lparr>form_state := (form_state s)\<lparr>form_type := Some ''registration''\<rparr>,
       heap := (heap s)(fields_ref (form_state s) := [])\<rparr>"

definition FormState_fill :: "string \<Rightarrow> string \<Rightarrow> session \<Rightarrow> session" where
  "FormState_fill field val s =
     s\<lparr>heap := (heap s)(fields_ref (form_state s) :=
          AList.update field (AStr val) (heap s (fields_ref (form_state s))))\<rparr>"

definition atom_of :: "string option \<Rightarrow> atom" where
  "atom_of t = (case t of None \<Rightarrow> ANone | Some x \<Rightarrow> AStr x)"

text \<open>
  \<open>{"form_type": self.form_type, **self.fields}\<close>: a new dictionary, started with
  \<open>form_type\<close> and then assigned every item of \<open>fields\<close> in order.
\<close>

definition dump_value :: "session \<Rightarrow> pydict" where
  "dump_value s =
     fold (\<lambda>(k, v). AList.update k v) (heap s (fields_ref (form_state s)))
       [(''form_type'', atom_of (form_type (form_state s)))]"

definition FormState_dump :: "session \<Rightarrow> addr \<times> session" where
  "FormState_dump s = alloc (dump_value s) s"

definition json_of_atom :: "atom \<Rightarrow> json" where
  "json_of_atom a = (case a of ANone \<Rightarrow> JNull | AStr x \<Rightarrow> JStr x)"

definition json_of_dict :: "pydict \<Rightarrow> json" where
  "json_of_dict d = JObj (map (\<lambda>(k, v). (k, json_of_atom v)) d)"

definition json_of_rval :: "(addr \<Rightarrow> pydict) \<Rightarrow> rval \<Rightarrow> json" where
  "json_of_rval h v = (case v of RAtom a \<Rightarrow> json_of_atom a | RDict a \<Rightarrow> json_of_dict (h a))"

definition json_of_resp :: "(addr \<Rightarrow> pydict) \<Rightarrow> resp \<Rightarrow> json" where
  "json_of_resp h r = JObj (map (\<lambda>(k, v). (k, json_of_rval h v)) r)"

definition result_callback :: "resp \<Rightarrow> session \<Rightarrow> session" where
  "result_callback r s = s\<lparr>model_results := model_results s @ [r]\<rparr>"

definition send_json :: "resp \<Rightarrow> session \<Rightarrow> session" where
  "send_json r s = s\<lparr>ws_sent := ws_sent s @ [json_of_resp (heap s) r]\<rparr>"


section \<open>The tool handlers\<close>

definition opened_resp :: resp where
  "opened_resp = [(''status'', RAtom (AStr ''opened'')), (''form_type'', RAtom (AStr ''registration''))]"

definition open_form :: "session \<Rightarrow> session" where
  "open_form s =
     (let s1 = FormState_open s;
          resp = opened_resp;
          s2 = result_callback resp s1
      in send_json resp s2)"

definition error_resp :: resp where
  "error_resp = [(''error'', RAtom (AStr ''no_field_detected''))]"

definition filled_resp :: "string \<Rightarrow> string \<Rightarrow> resp" where
  "filled_resp field candidate =
     [(''status'', RAtom (AStr ''filled'')), (''field'', RAtom (AStr field)),
      (''value'', RAtom (AStr candidate))]"

definition fill_form_field :: "string \<Rightarrow> session \<Rightarrow> session" where
  "fill_form_field val s =
     (let s1 = (if form_type (form_state s) = None then FormState_open s else s);
          text = normalize val;
          field = (if CHR ''@'' \<in> set text then ''email'' else ''name'');
          candidate = text
      in if candidate = []
         then (let err = error_resp;
                   s2 = result_callback err s1
               in send_json err s2)
         else (let s2 = FormState_fill field candidate s1;
                   resp = filled_resp field candidate;
                   s3 = result_callback resp s2
               in send_json resp s3))"

definition submitted_resp :: "addr \<Rightarrow> resp" where
  "submitted_resp data = [(''status'', RAtom (AStr ''submitted'')), (''data'', RDict data)]"

definition submit_form :: "session \<Rightarrow> session" where
  "submit_form s =
     (case FormState_dump s of (data, s1) \<Rightarrow>
        (let resp = submitted_resp data;
             s2 = result_callback resp s1;
             s3 = send_json resp s2
         in FormState_open s3))"

text \<open>
  The three functions registered with the model service. \<open>run_in_parallel=False\<close>: the
  calls of one session run one after the other.
\<close>

datatype tool = OpenForm | FillFormField string | SubmitForm

fun call_tool :: "tool \<Rightarrow> session \<Rightarrow> session" where
  "call_tool OpenForm s = open_form s"
| "call_tool (FillFormField v) s = fill_form_field v s"
| "call_tool SubmitForm s = submit_form s"

definition run_tools :: "tool list \<Rightarrow> session \<Rightarrow> session" where
  "run_tools calls s = fold call_tool calls s"

text \<open>
  A state query in the shape of \<open>dump\<close>: the form type together with the content of the
  \<open>fields\<close> dictionary.
\<close>

definition form_query :: "session \<Rightarrow> string option \<times> pydict" where
  "form_query s = (form_type (form_state s), heap s (fields_ref (form_state s)))"

text \<open>The invariant of the form state, in its two readings.\<close>

definition form_inv :: "session \<Rightarrow> bool" where
  "form_inv s =
     (form_type (form_state s) = None \<longrightarrow> heap s (fields_ref (form_state s)) = [])"

definition fields_only_if_registration :: "session \<Rightarrow> bool" where
  "fields_only_if_registration s =
     (heap s (fields_ref (form_state s)) \<noteq> [] \<longrightarrow> form_type (form_state s) = Some ''registration'')"

text \<open>
  The \<open>fields\<close> dictionary was allocated before any dictionary still to be allocated, and
  its keys are unique, as the keys of a dictionary are.
\<close>

definition heap_wf :: "session \<Rightarrow> bool" where
  "heap_wf s =
     (fields_ref (form_state s) < next_addr s \<and>
      distinct (map fst (heap s (fields_ref (form_state s)))))"


section \<open>The receive loop of the transport\<close>

text \<open>
  The exceptions the loop can meet. \<open>AttributeError\<close> is what a lookup of \<open>self._ws\<close>,
  \<open>self._closed\<close> or \<open>self.push_audio_frame\<close> raises on an object without that attribute:
  this file defines none of the three and leaves them to the base class.
  \<open>OtherException\<close> stands for any other subclass of \<open>Exception\<close> (such as the
  \<open>RuntimeError\<close> of a \<open>receive\<close> after a disconnect message); \<open>CancelledError\<close> stands
  for the exceptions that derive from \<open>BaseException\<close> only, which \<open>except Exception\<close>
  does not catch.
\<close>

datatype exn =
    WebSocketDisconnect
  | ConnectionClosedError
  | AttributeError
  | OtherException
  | CancelledError


type_synonym bytes = "char list"















section \<open>The WebSocket endpoint\<close>

text \<open>
  A connection's socket is the list of calls made on it. The server holds the sockets of
  all connections and the pipeline task built for each. The run of the pipeline is taken
  from the environment: the calls it makes on the socket and the exception it ends with.
\<close>

datatype ws_action = Accept | SendJson json | SendBytes bytes | Close nat

datatype stage = TransportInput | RTVI | UserContext | LLM | TransportOutput | AssistantContext

record pipeline_task =
  stages :: "stage list"
  allow_interruptions :: bool
  voice_id :: string

type_synonym conn = nat

record server =
  sockets :: "conn \<Rightarrow> ws_action list"
  tasks :: "conn \<Rightarrow> pipeline_task option"

definition ws_call :: "conn \<Rightarrow> ws_action list \<Rightarrow> server \<Rightarrow> server" where
  "ws_call c acts srv = srv\<lparr>sockets := (sockets srv)(c := sockets srv c @ acts)\<rparr>"

text \<open>
  \<open>api_key\<close> is the value of \<open>os.getenv("GEMINI_API_KEY")\<close>; \<open>not api_key\<close> holds for \<open>None\<close>
  and for the empty string. \<open>ws.close()\<close> closes with the default code 1000.
\<close>

definition websocket_endpoint ::
  "string option \<Rightarrow> string option \<Rightarrow> ws_action list \<times> exn option \<Rightarrow> conn \<Rightarrow> server
     \<Rightarrow> exn option \<times> server" where
  "websocket_endpoint api_key voice run c srv =
     (let srv1 = ws_call c [Accept] srv
      in if api_key = None \<or> api_key = Some []
         then (let srv2 = ws_call c [SendJson (JObj [(''error'', JStr ''GEMINI_API_KEY not set'')])] srv1;
                   srv3 = ws_call c [Close 4401] srv2
               in (None, srv3))
         else (let task = \<lparr>stages = [TransportInput, RTVI, UserContext, LLM, TransportOutput,
                                       AssistantContext],
                            allow_interruptions = True,
                            voice_id = (case voice of None \<Rightarrow> ''Puck''
                                        | Some v \<Rightarrow> if v = [] then ''Puck'' else v)\<rparr>;
                   srv2 = srv1\<lparr>tasks := (tasks srv1)(c \<mapsto> task)\<rparr>;
                   srv3 = ws_call c (fst run) srv2;
                   srv4 = ws_call c [Close 1000] srv3
               in case snd run of
                    None \<Rightarrow> (None, srv4)
                  | Some e \<Rightarrow>
                      if e = WebSocketDisconnect \<or> e = ConnectionClosedError then (None, srv4)
                      else (Some e, srv4)))"


section \<open>Lemmas about text\<close>

subsection \<open>Characters\<close>

lemma lower_char_code:
  "of_char (lower_char c) =
     (if (65 \<le> (of_char c :: nat) \<and> (of_char c :: nat) \<le> 90) \<or>
         (192 \<le> (of_char c :: nat) \<and> (of_char c :: nat) \<le> 214) \<or>
         (216 \<le> (of_char c :: nat) \<and> (of_char c :: nat) \<le> 222)
      then (of_char c :: nat) + 32 else of_char c)"
  by (simp add: lower_char_def Let_def)

lemma isspace_lower_char [simp]: "isspace (lower_char c) = isspace c"
  unfolding isspace_def Let_def lower_char_code by auto

lemma lower_char_idem [simp]: "lower_char (lower_char c) = lower_char c"
proof -
  have "(of_char (lower_char (lower_char c)) :: nat) = of_char (lower_char c)"
    unfolding lower_char_code [of "lower_char c"] unfolding lower_char_code by auto
  then show ?thesis by simp
qed

lemma lower_char_eq_low:
  assumes "(of_char d :: nat) < 65"
  shows "lower_char c = d \<longleftrightarrow> c = d"
proof -
  have "(of_char (lower_char c) :: nat) = of_char d \<longleftrightarrow> (of_char c :: nat) = of_char d"
    unfolding lower_char_code using assms by auto
  then show ?thesis by simp
qed

lemma lower_char_apostrophe: "lower_char c = CHR 0x27 \<longleftrightarrow> c = CHR 0x27"
  by (rule lower_char_eq_low) simp

lemma lower_char_at: "lower_char c = CHR ''@'' \<longleftrightarrow> c = CHR ''@''"
  by (rule lower_char_eq_low) simp

lemma lower_append [simp]: "lower (a @ b) = lower a @ lower b"
  by (simp add: lower_def)

lemma lower_Cons [simp]: "lower (c # s) = lower_char c # lower s"
  by (simp add: lower_def)

lemma lower_Nil [simp]: "lower [] = []"
  by (simp add: lower_def)

lemma lower_idem [simp]: "lower (lower s) = lower s"
  by (simp add: lower_def)

lemma set_lower: "set (lower s) = lower_char ` set s"
  by (simp add: lower_def)

lemma lower_eq_Nil [simp]: "lower s = [] \<longleftrightarrow> s = []"
  by (simp add: lower_def)

subsection \<open>Stripping whitespace\<close>


lemma strip_token:
  "s \<noteq> [] \<Longrightarrow> \<not> isspace (hd s) \<Longrightarrow> \<not> isspace (last s) \<Longrightarrow> strip s = s"
proof -
  assume a: "s \<noteq> []" "\<not> isspace (hd s)" "\<not> isspace (last s)"
  then have 1: "dropWhile isspace s = s"
    by (cases s) simp_all
  from a have "rev s \<noteq> []" "\<not> isspace (hd (rev s))"
    by (simp_all add: hd_rev)
  then have "dropWhile isspace (rev s) = rev s"
    by (cases "rev s") simp_all
  then show ?thesis by (simp add: strip_def 1)
qed




subsection \<open>Matching and substitution\<close>

declare re_sub_from.simps [simp del]

lemma first_match_Nil: "first_match r (p, []) = None"
  by (simp add: first_match_def split: list.splits)

lemma re_sub_from_Nil: "re_sub_from r repl (p, []) = []"
  by (subst re_sub_from.simps) (simp add: first_match_Nil)

lemma re_sub_from_no_match:
  "first_match r (p, c # cs) = None \<Longrightarrow>
   re_sub_from r repl (p, c # cs) = c # re_sub_from r repl (Some c, cs)"
  by (subst re_sub_from.simps) simp

lemma re_sub_from_match:
  "first_match r ps = Some q \<Longrightarrow> re_sub_from r repl ps = repl @ re_sub_from r repl q"
  by (subst re_sub_from.simps) simp

lemma first_match_no_candidates: "rmatch r ps = [] \<Longrightarrow> first_match r ps = None"
  by (simp add: first_match_def)

lemma plus_matches_suffix:
  "q \<in> set (plus_matches c s) \<Longrightarrow> \<exists>u. u \<noteq> [] \<and> (\<forall>x \<in> set u. c x) \<and> s = u @ snd q"
proof (induction s)
  case Nil
  then show ?case by simp
next
  case (Cons a s)
  show ?case
  proof (cases "q = (Some a, s)")
    case True
    with Cons.prems have "c a" by (auto split: if_splits)
    with True show ?thesis by (intro exI [of _ "[a]"]) simp
  next
    case False
    with Cons.prems have ca: "c a" and "q \<in> set (plus_matches c s)"
      by (auto split: if_splits)
    with Cons.IH obtain u where "u \<noteq> []" "\<forall>x \<in> set u. c x" "s = u @ snd q" by blast
    with ca show ?thesis by (intro exI [of _ "a # u"]) simp
  qed
qed

lemma plus_matches_none: "s = [] \<or> \<not> c (hd s) \<Longrightarrow> plus_matches c s = []"
  by (cases s) auto

lemma plus_matches_one:
  "c x \<Longrightarrow> s = [] \<or> \<not> c (hd s) \<Longrightarrow> plus_matches c (x # s) = [(Some x, s)]"
  by (simp add: plus_matches_none)

lemma rmatch_suffix: "q \<in> set (rmatch r ps) \<Longrightarrow> \<exists>u. snd ps = u @ snd q"
proof (induction r arbitrary: ps q)
  case (Lit w)
  then show ?case
    by (cases ps) (auto simp: prefix_def split: if_splits)
next
  case (Plus c)
  then show ?case using plus_matches_suffix [of q c "snd ps"] by auto
next
  case WordB
  then show ?case by (auto split: if_splits)
next
  case (Seq a b)
  from Seq.prems obtain m where m: "m \<in> set (rmatch a ps)" "q \<in> set (rmatch b m)"
    by auto
  from Seq.IH(1) [OF m(1)] Seq.IH(2) [OF m(2)] show ?case by auto
next
  case (Alt a b)
  from Alt.prems have "q \<in> set (rmatch a ps) \<or> q \<in> set (rmatch b ps)" by simp
  with Alt.IH show ?case by blast
next
  case (Opt a)
  from Opt.prems have "q \<in> set (rmatch a ps) \<or> q = ps" by auto
  with Opt.IH show ?case by blast
qed

lemma rmatch_Seq_iff:
  "q \<in> set (rmatch (Seq a b) ps) \<longleftrightarrow> (\<exists>m \<in> set (rmatch a ps). q \<in> set (rmatch b m))"
  by auto

lemma plus_matches_spaces:
  "q \<in> set (plus_matches isspace s) \<Longrightarrow>
   Suc (length (filter isspace (snd q))) \<le> length (filter isspace s)"
proof -
  assume "q \<in> set (plus_matches isspace s)"
  then obtain u where u: "u \<noteq> []" "\<forall>x \<in> set u. isspace x" "s = u @ snd q"
    using plus_matches_suffix by blast
  then have "filter isspace u = u" by simp
  with u show ?thesis by (cases u) simp_all
qed

lemma rmatch_spaces:
  "q \<in> set (rmatch r ps) \<Longrightarrow>
   length (filter isspace (snd q)) \<le> length (filter isspace (snd ps))"
  using rmatch_suffix [of q r ps] by auto

lemma at_the_rate_re_spaces:
  assumes "q \<in> set (rmatch at_the_rate_re ps)"
  shows "4 \<le> length (filter isspace (snd ps))"
proof -
  from assms obtain q1 q2 q3 q4 q5 q6 q7 where
    q: "q1 \<in> set (plus_matches isspace (snd ps))"
       "q2 \<in> set (rmatch (Lit ''at'') q1)"
       "q3 \<in> set (plus_matches isspace (snd q2))"
       "q4 \<in> set (rmatch (Lit ''the'') q3)"
       "q5 \<in> set (plus_matches isspace (snd q4))"
       "q6 \<in> set (rmatch (Lit ''rate'') q5)"
       "q7 \<in> set (rmatch (Opt (Seq (Plus isspace) (Lit ''of''))) q6)"
       "q \<in> set (plus_matches isspace (snd q7))"
    unfolding at_the_rate_re_def rmatch_Seq_iff rmatch.simps(2) by blast
  from q(1,3,5,8) [THEN plus_matches_spaces] q(2,4,6,7) [THEN rmatch_spaces]
  show ?thesis by linarith
qed

lemma at_the_rate_re_consumes:
  "q \<in> set (rmatch at_the_rate_re ps) \<Longrightarrow> length (snd q) < length (snd ps)"
proof -
  assume a: "q \<in> set (rmatch at_the_rate_re ps)"
  then obtain q1 where
    q: "q1 \<in> set (plus_matches isspace (snd ps))"
       "q \<in> set (rmatch (Seq (Lit ''at'') (Seq (Plus isspace) (Seq (Lit ''the'')
          (Seq (Plus isspace) (Seq (Lit ''rate'')
            (Seq (Opt (Seq (Plus isspace) (Lit ''of''))) (Plus isspace))))))) q1)"
    unfolding at_the_rate_re_def rmatch_Seq_iff [of q "Plus isspace"] rmatch.simps(2) by blast
  from plus_matches_suffix [OF q(1)] rmatch_suffix [OF q(2)] show ?thesis by auto
qed

lemma intro_re_consumes:
  "q \<in> set (rmatch intro_re ps) \<Longrightarrow> length (snd q) < length (snd ps)"
  by (cases ps)
     (auto simp: intro_re_def prefix_def split: if_splits)

lemma at_the_rate_re_few_spaces:
  "length (filter isspace s) < 4 \<Longrightarrow> re_sub_from at_the_rate_re repl (p, s) = s"
proof (induction s arbitrary: p)
  case Nil
  show ?case by (rule re_sub_from_Nil)
next
  case (Cons c cs)
  have "rmatch at_the_rate_re (p, c # cs) = []"
  proof (cases "rmatch at_the_rate_re (p, c # cs)")
    case Nil
    then show ?thesis .
  next
    case (Cons q qs)
    then have "q \<in> set (rmatch at_the_rate_re (p, c # cs))" by simp
    from at_the_rate_re_spaces [OF this] Cons.prems show ?thesis by simp
  qed
  then have "first_match at_the_rate_re (p, c # cs) = None"
    by (rule first_match_no_candidates)
  moreover from Cons.prems have "length (filter isspace cs) < 4"
    by (simp split: if_splits)
  ultimately show ?case
    by (simp add: re_sub_from_no_match Cons.IH)
qed

lemma at_the_rate_re_skip:
  "\<forall>c \<in> set u. \<not> isspace c \<Longrightarrow>
   re_sub_from at_the_rate_re repl (p, u @ rest) =
     u @ re_sub_from at_the_rate_re repl (if u = [] then p else Some (last u), rest)"
proof (induction u arbitrary: p)
  case Nil
  show ?case by simp
next
  case (Cons c u)
  then have "rmatch at_the_rate_re (p, c # u @ rest) = []"
    by (simp add: at_the_rate_re_def)
  then have "first_match at_the_rate_re (p, (c # u) @ rest) = None"
    by (simp add: first_match_no_candidates)
  with Cons show ?case
    by (simp add: re_sub_from_no_match)
qed

lemma plus_matches_nospace:
  "\<forall>c \<in> set s. \<not> isspace c \<Longrightarrow> plus_matches isspace s = []"
  by (cases s) auto

lemma plus_matches_drop_nospace:
  "\<forall>c \<in> set s. \<not> isspace c \<Longrightarrow> plus_matches isspace (drop n s) = []"
  by (rule plus_matches_nospace) (auto dest: in_set_dropD)

lemma isspace_space: "isspace CHR '' ''"
  by (simp add: isspace_def)

lemma at_the_rate_re_match:
  assumes "\<forall>c \<in> set w. \<not> isspace c"
  shows "rmatch at_the_rate_re (p, '' at the rate '' @ w) = [(Some CHR '' '', w)]"
proof -
  have ns: "\<not> isspace CHR ''a''" "\<not> isspace CHR ''t''" "\<not> isspace CHR ''r''"
    by (simp_all add: isspace_def)
  show ?thesis
    using assms
    by (simp add: at_the_rate_re_def isspace_space ns plus_matches_nospace
        plus_matches_drop_nospace)
qed

lemma at_the_rate_of_re_match:
  assumes "\<forall>c \<in> set w. \<not> isspace c"
  shows "hd (rmatch at_the_rate_re (p, '' at the rate of '' @ w)) = (Some CHR '' '', w) \<and>
         rmatch at_the_rate_re (p, '' at the rate of '' @ w) \<noteq> []"
proof -
  have ns: "\<not> isspace CHR ''a''" "\<not> isspace CHR ''t''" "\<not> isspace CHR ''r''"
    "\<not> isspace CHR ''o''"
    by (simp_all add: isspace_def)
  show ?thesis
    using assms
    by (simp add: at_the_rate_re_def isspace_space ns plus_matches_nospace
        plus_matches_drop_nospace)
qed


lemma at_the_rate_first_match:
  assumes "\<forall>c \<in> set w. \<not> isspace c"
  shows "first_match at_the_rate_re (p, '' at the rate '' @ w) = Some (Some CHR '' '', w)"
    and "first_match at_the_rate_re (p, '' at the rate of '' @ w) = Some (Some CHR '' '', w)"
proof -
  show "first_match at_the_rate_re (p, '' at the rate '' @ w) = Some (Some CHR '' '', w)"
    unfolding first_match_def at_the_rate_re_match [OF assms] by simp
  from at_the_rate_of_re_match [OF assms, of p]
  show "first_match at_the_rate_re (p, '' at the rate of '' @ w) = Some (Some CHR '' '', w)"
    by (cases "rmatch at_the_rate_re (p, '' at the rate of '' @ w)")
       (simp_all add: first_match_def)
qed

lemma intro_re_no_prefix:
  "\<not> prefix ''my name is'' s \<Longrightarrow> \<not> prefix ''name is'' s \<Longrightarrow> \<not> prefix ''i am'' s \<Longrightarrow>
   \<not> prefix ''i'm'' s \<Longrightarrow> rmatch intro_re (p, s) = []"
  by (simp add: intro_re_def)

lemma intro_re_plain:
  "\<forall>c \<in> set s. c \<noteq> CHR '' '' \<and> c \<noteq> CHR 0x27 \<Longrightarrow> re_sub_from intro_re repl (p, s) = s"
proof (induction s arbitrary: p)
  case Nil
  show ?case by (rule re_sub_from_Nil)
next
  case (Cons c cs)
  have np: "\<not> prefix ph (c # cs)" if "CHR '' '' \<in> set ph \<or> CHR 0x27 \<in> set ph" for ph
  proof
    assume "prefix ph (c # cs)"
    then have "set ph \<subseteq> set (c # cs)" by (rule set_mono_prefix)
    with that Cons.prems show False by auto
  qed
  have "rmatch intro_re (p, c # cs) = []"
    by (rule intro_re_no_prefix; rule np) simp_all
  then have "first_match intro_re (p, c # cs) = None"
    by (rule first_match_no_candidates)
  with Cons show ?case
    by (simp add: re_sub_from_no_match)
qed



lemma nospace_not_space: "\<not> isspace c \<Longrightarrow> c \<noteq> CHR '' ''"
  using isspace_space by blast

lemma token_lower:
  assumes "w \<noteq> []" "\<forall>c \<in> set w. \<not> isspace c \<and> c \<noteq> CHR 0x27"
  shows "lower w \<noteq> []"
    and "\<forall>c \<in> set (lower w). \<not> isspace c"
    and "\<forall>c \<in> set (lower w). c \<noteq> CHR '' '' \<and> c \<noteq> CHR 0x27"
    and "\<not> isspace (hd (lower w))"
    and "\<not> isspace (last (lower w))"
proof -
  show 1: "lower w \<noteq> []" using assms(1) by simp
  show 2: "\<forall>c \<in> set (lower w). \<not> isspace c"
    using assms(2) by (simp add: set_lower)
  show "\<forall>c \<in> set (lower w). c \<noteq> CHR '' '' \<and> c \<noteq> CHR 0x27"
  proof
    fix c assume c: "c \<in> set (lower w)"
    with 2 have "\<not> isspace c" by blast
    then have "c \<noteq> CHR '' ''" by (rule nospace_not_space)
    moreover have "c \<noteq> CHR 0x27"
    proof -
      from c obtain x where x: "x \<in> set w" "c = lower_char x"
        unfolding set_lower by blast
      with assms(2) have "x \<noteq> CHR 0x27" by blast
      then show ?thesis
        unfolding x(2) by (simp only: lower_char_apostrophe not_False_eq_True)
    qed
    ultimately show "c \<noteq> CHR '' '' \<and> c \<noteq> CHR 0x27" ..
  qed
  from 1 2 show "\<not> isspace (hd (lower w))" by (simp add: hd_in_set del: lower_eq_Nil)
  from 1 2 show "\<not> isspace (last (lower w))" by (simp add: last_in_set del: lower_eq_Nil)
qed











lemma lower_at_the_rate:
  "lower (u @ '' at the rate '' @ w) = lower u @ '' at the rate '' @ lower w"
  "lower (u @ '' at the rate of '' @ w) = lower u @ '' at the rate of '' @ lower w"
  by (simp_all add: lower_char_def)

lemma strip_around:
  assumes "u' \<noteq> []" "\<not> isspace (hd u')" "w' \<noteq> []" "\<not> isspace (last w')"
  shows "strip (u' @ m @ w') = u' @ m @ w'"
  using assms by (intro strip_token) (simp_all add: hd_append)

lemma at_the_rate_sub:
  assumes "\<forall>c \<in> set u'. \<not> isspace c" "\<forall>c \<in> set w'. \<not> isspace c"
  shows "re_sub at_the_rate_re ''@'' (u' @ '' at the rate '' @ w') = u' @ ''@'' @ w'"
    and "re_sub at_the_rate_re ''@'' (u' @ '' at the rate of '' @ w') = u' @ ''@'' @ w'"
proof -
  have tail: "re_sub_from at_the_rate_re ''@'' (Some CHR '' '', w') = w'"
    using assms(2) by (intro at_the_rate_re_few_spaces) (simp add: filter_empty_conv [THEN iffD2])
  show "re_sub at_the_rate_re ''@'' (u' @ '' at the rate '' @ w') = u' @ ''@'' @ w'"
    unfolding re_sub_def
    by (simp only: at_the_rate_re_skip [OF assms(1)]
        re_sub_from_match [OF at_the_rate_first_match(1) [OF assms(2)]] tail)
  show "re_sub at_the_rate_re ''@'' (u' @ '' at the rate of '' @ w') = u' @ ''@'' @ w'"
    unfolding re_sub_def
    by (simp only: at_the_rate_re_skip [OF assms(1)]
        re_sub_from_match [OF at_the_rate_first_match(2) [OF assms(2)]] tail)
qed

lemma intro_sub_plain:
  assumes "\<forall>c \<in> set u'. c \<noteq> CHR '' '' \<and> c \<noteq> CHR 0x27"
    "\<forall>c \<in> set w'. c \<noteq> CHR '' '' \<and> c \<noteq> CHR 0x27"
  shows "re_sub intro_re [] (u' @ ''@'' @ w') = u' @ ''@'' @ w'"
  unfolding re_sub_def
proof (rule intro_re_plain, rule ballI)
  fix c assume "c \<in> set (u' @ ''@'' @ w')"
  then consider "c \<in> set u'" | "c = CHR ''@''" | "c \<in> set w'" by auto
  then show "c \<noteq> CHR '' '' \<and> c \<noteq> CHR 0x27"
    using assms by cases simp_all
qed

lemma normalize_at_the_rate:
  assumes u: "u \<noteq> []" "\<forall>c \<in> set u. \<not> isspace c \<and> c \<noteq> CHR 0x27"
    and w: "w \<noteq> []" "\<forall>c \<in> set w. \<not> isspace c \<and> c \<noteq> CHR 0x27"
  shows "normalize (u @ '' at the rate '' @ w) = lower u @ ''@'' @ lower w"
    and "normalize (u @ '' at the rate of '' @ w) = lower u @ ''@'' @ lower w"
proof -
  note a = token_lower [OF u]
  note b = token_lower [OF w]
  note s = strip_around [OF a(1) a(4) b(1) b(5)]
  show "normalize (u @ '' at the rate '' @ w) = lower u @ ''@'' @ lower w"
    by (simp only: normalize_def Let_def lower_at_the_rate s at_the_rate_sub [OF a(2) b(2)]
        intro_sub_plain [OF a(3) b(3)])
  show "normalize (u @ '' at the rate of '' @ w) = lower u @ ''@'' @ lower w"
    by (simp only: normalize_def Let_def lower_at_the_rate s at_the_rate_sub [OF a(2) b(2)]
        intro_sub_plain [OF a(3) b(3)])
qed


subsection \<open>Text the patterns leave alone\<close>






















subsection \<open>Phrases that are not at the start\<close>








subsection \<open>The phrase at the start or the end of the text\<close>




subsection \<open>A leading phrase before several words\<close>





section \<open>Dictionaries\<close>

lemma map_of_fold_update:
  "map_of (fold (\<lambda>(k, v). AList.update k v) xs d) = map_of d ++ map_of (rev xs)"
proof (induction xs arbitrary: d)
  case Nil
  then show ?case by simp
next
  case (Cons x xs)
  obtain k v where x: "x = (k, v)" by (cases x)
  show ?case
    by (auto simp: x Cons.IH update_conv' map_add_def fun_eq_iff split: option.splits)
qed

lemma map_of_rev_distinct:
  "distinct (map fst xs) \<Longrightarrow> map_of (rev xs) = map_of xs"
  by (rule map_of_inject_set [THEN iffD2]) (auto simp: distinct_rev rev_map [symmetric])

lemma map_of_dump_value:
  "heap_wf s \<Longrightarrow>
   map_of (dump_value s) =
     map_of [(''form_type'', atom_of (form_type (form_state s)))] ++
     map_of (heap s (fields_ref (form_state s)))"
  by (simp only: dump_value_def map_of_fold_update heap_wf_def map_of_rev_distinct)

section \<open>The handlers, step by step\<close>

lemma fill_form_field_empty:
  "normalize v = [] \<Longrightarrow>
   fill_form_field v s =
     send_json error_resp (result_callback error_resp
       (if form_type (form_state s) = None then FormState_open s else s))"
  by (simp add: fill_form_field_def Let_def)

lemma fill_form_field_nonempty:
  "normalize v \<noteq> [] \<Longrightarrow>
   fill_form_field v s =
     send_json (filled_resp (if CHR ''@'' \<in> set (normalize v) then ''email'' else ''name'') (normalize v))
       (result_callback (filled_resp (if CHR ''@'' \<in> set (normalize v) then ''email'' else ''name'') (normalize v))
         (FormState_fill (if CHR ''@'' \<in> set (normalize v) then ''email'' else ''name'') (normalize v)
            (if form_type (form_state s) = None then FormState_open s else s)))"
  by (simp add: fill_form_field_def Let_def)

lemma error_json:
  "json_of_resp h [(''error'', RAtom (AStr ''no_field_detected''))] =
   JObj [(''error'', JStr ''no_field_detected'')]"
  by (simp add: json_of_resp_def json_of_rval_def json_of_atom_def)

lemma filled_json:
  "json_of_resp h (filled_resp f c) =
   JObj [(''status'', JStr ''filled''), (''field'', JStr f), (''value'', JStr c)]"
  by (simp add: json_of_resp_def json_of_rval_def json_of_atom_def filled_resp_def)

lemma opened_json:
  "json_of_resp h opened_resp =
   JObj [(''status'', JStr ''opened''), (''form_type'', JStr ''registration'')]"
  by (simp add: json_of_resp_def json_of_rval_def json_of_atom_def opened_resp_def)

lemma submitted_json:
  "json_of_resp h (submitted_resp a) =
   JObj [(''status'', JStr ''submitted''), (''data'', json_of_dict (h a))]"
  by (simp add: json_of_resp_def json_of_rval_def json_of_atom_def submitted_resp_def)

lemma json_of_resp_flat:
  "\<forall>(k, v) \<in> set r. \<exists>a. v = RAtom a \<Longrightarrow> json_of_resp h r = json_of_resp h' r"
  by (auto simp: json_of_resp_def json_of_rval_def)

lemma open_form_sel:
  "form_state (open_form s) = \<lparr>form_type = Some ''registration'', fields_ref = fields_ref (form_state s)\<rparr>"
  "heap (open_form s) = (heap s)(fields_ref (form_state s) := [])"
  "next_addr (open_form s) = next_addr s"
  "model_results (open_form s) = model_results s @ [opened_resp]"
  "ws_sent (open_form s) = ws_sent s @ [json_of_resp (heap (open_form s)) opened_resp]"
  by (simp_all add: open_form_def FormState_open_def result_callback_def send_json_def Let_def)

lemma submit_form_sel:
  "form_state (submit_form s) = \<lparr>form_type = Some ''registration'', fields_ref = fields_ref (form_state s)\<rparr>"
  "heap (submit_form s) = (heap s)(next_addr s := dump_value s, fields_ref (form_state s) := [])"
  "next_addr (submit_form s) = Suc (next_addr s)"
  "model_results (submit_form s) = model_results s @ [submitted_resp (next_addr s)]"
  "ws_sent (submit_form s) =
     ws_sent s @ [json_of_resp ((heap s)(next_addr s := dump_value s)) (submitted_resp (next_addr s))]"
  by (simp_all add: submit_form_def FormState_dump_def alloc_def FormState_open_def
      result_callback_def send_json_def Let_def)

lemma fill_form_field_sel:
  "form_type (form_state (fill_form_field v s)) =
     (if form_type (form_state s) = None then Some ''registration'' else form_type (form_state s))"
  "fields_ref (form_state (fill_form_field v s)) = fields_ref (form_state s)"
  "next_addr (fill_form_field v s) = next_addr s"
  by (simp_all add: fill_form_field_def FormState_fill_def FormState_open_def
      result_callback_def send_json_def Let_def)


lemma fill_form_field_heap_empty:
  "normalize v = [] \<Longrightarrow>
   heap (fill_form_field v s) =
     (if form_type (form_state s) = None then (heap s)(fields_ref (form_state s) := []) else heap s)"
  by (simp add: fill_form_field_empty send_json_def result_callback_def FormState_open_def)

lemma fill_form_field_heap_nonempty:
  "normalize v \<noteq> [] \<Longrightarrow>
   heap (fill_form_field v s) =
     (heap s)(fields_ref (form_state s) :=
        AList.update (if CHR ''@'' \<in> set (normalize v) then ''email'' else ''name'') (AStr (normalize v))
          (if form_type (form_state s) = None then [] else heap s (fields_ref (form_state s))))"
  by (simp add: fill_form_field_nonempty send_json_def result_callback_def FormState_open_def
      FormState_fill_def)

lemma fill_form_field_outputs_nonempty:
  "normalize v \<noteq> [] \<Longrightarrow>
   model_results (fill_form_field v s) =
     model_results s @
       [filled_resp (if CHR ''@'' \<in> set (normalize v) then ''email'' else ''name'') (normalize v)] \<and>
   ws_sent (fill_form_field v s) =
     ws_sent s @
       [JObj [(''status'', JStr ''filled''),
              (''field'', JStr (if CHR ''@'' \<in> set (normalize v) then ''email'' else ''name'')),
              (''value'', JStr (normalize v))]]"
  by (simp add: fill_form_field_nonempty send_json_def result_callback_def FormState_open_def
      FormState_fill_def filled_json)

lemma fill_form_field_outputs_empty:
  "normalize v = [] \<Longrightarrow>
   model_results (fill_form_field v s) = model_results s @ [error_resp] \<and>
   ws_sent (fill_form_field v s) = ws_sent s @ [JObj [(''error'', JStr ''no_field_detected'')]]"
  by (simp add: fill_form_field_empty send_json_def result_callback_def FormState_open_def
      error_json [unfolded error_resp_def [symmetric]])

lemma call_tool_form_type: "form_type (form_state (call_tool t s)) \<noteq> None"
  by (cases t) (simp_all add: open_form_sel submit_form_sel fill_form_field_sel)

lemma call_tool_registered:
  "form_type (form_state s) = None \<or> form_type (form_state s) = Some ''registration'' \<Longrightarrow>
   form_type (form_state (call_tool t s)) = Some ''registration''"
  by (cases t) (auto simp: open_form_sel submit_form_sel fill_form_field_sel)

lemma run_tools_snoc: "run_tools (calls @ [t]) s = call_tool t (run_tools calls s)"
  by (simp add: run_tools_def)

lemma run_tools_form_type:
  "form_type (form_state (run_tools calls initial_session)) = None \<and>
     heap (run_tools calls initial_session) (fields_ref (form_state (run_tools calls initial_session))) = [] \<or>
   form_type (form_state (run_tools calls initial_session)) = Some ''registration''"
proof (induction calls rule: rev_induct)
  case Nil
  show ?case by (simp add: run_tools_def initial_session_def)
next
  case (snoc t calls)
  have "form_type (form_state (call_tool t (run_tools calls initial_session))) = Some ''registration''"
    using snoc by (intro call_tool_registered) blast
  then show ?case by (simp add: run_tools_snoc)
qed

lemma call_tool_heap_wf: "heap_wf s \<Longrightarrow> heap_wf (call_tool t s)"
proof (cases t)
  case OpenForm
  assume "heap_wf s"
  then show ?thesis by (simp add: OpenForm heap_wf_def open_form_sel)
next
  case (FillFormField v)
  assume wf: "heap_wf s"
  show ?thesis
  proof (cases "normalize v = []")
    case True
    with wf show ?thesis
      by (simp add: FillFormField heap_wf_def fill_form_field_sel fill_form_field_heap_empty)
  next
    case False
    with wf show ?thesis
      by (simp add: FillFormField heap_wf_def fill_form_field_sel fill_form_field_heap_nonempty
          distinct_update)
  qed
next
  case SubmitForm
  assume "heap_wf s"
  then show ?thesis by (simp add: SubmitForm heap_wf_def submit_form_sel)
qed

lemma run_tools_heap_wf: "heap_wf (run_tools calls initial_session)"
proof (induction calls rule: rev_induct)
  case Nil
  show ?case by (simp add: run_tools_def initial_session_def heap_wf_def)
next
  case (snoc t calls)
  then show ?case by (simp add: run_tools_snoc call_tool_heap_wf)
qed

section \<open>Claims about the form tools\<close>

text \<open>
  Claim C6. From every prior state \<open>open_form\<close> sets the form type to \<open>registration\<close>,
  clears the fields, passes \<open>{"status": "opened", "form_type": "registration"}\<close> to the
  result callback and sends it to the client; a state query right after shows the form type
  \<open>registration\<close> and no fields, and \<open>dump\<close> would give \<open>{"form_type": "registration"}\<close>.
  The handler has no failing branch.
\<close>

theorem open_form_always_opens:
  "form_type (form_state (open_form s)) = Some ''registration'' \<and>
   heap (open_form s) (fields_ref (form_state (open_form s))) = [] \<and>
   form_query (open_form s) = (Some ''registration'', []) \<and>
   dump_value (open_form s) = [(''form_type'', AStr ''registration'')] \<and>
   model_results (open_form s) =
     model_results s @
       [[(''status'', RAtom (AStr ''opened'')), (''form_type'', RAtom (AStr ''registration''))]] \<and>
   ws_sent (open_form s) =
     ws_sent s @ [JObj [(''status'', JStr ''opened''), (''form_type'', JStr ''registration'')]]"
  by (simp add: open_form_sel opened_json form_query_def dump_value_def atom_of_def)
     (simp add: opened_resp_def)

text \<open>
  Claim C5. \<open>submit_form\<close> passes \<open>{"status": "submitted", "data": data}\<close> to the result
  callback and sends it to the client, where \<open>data\<close> is a new dictionary holding the
  snapshot \<open>{"form_type": form_type, **fields}\<close> taken at call time. Afterwards the form is
  reopened (form type \<open>registration\<close>, no fields), and the dictionary \<open>data\<close> still holds
  the snapshot: clearing \<open>fields\<close> does not reach it.
\<close>

theorem submit_form_snapshot:
  assumes "heap_wf s"
  shows "model_results (submit_form s) =
           model_results s @
             [[(''status'', RAtom (AStr ''submitted'')), (''data'', RDict (next_addr s))]] \<and>
         ws_sent (submit_form s) =
           ws_sent s @ [JObj [(''status'', JStr ''submitted''), (''data'', json_of_dict (dump_value s))]] \<and>
         map_of (dump_value s) =
           map_of [(''form_type'', atom_of (form_type (form_state s)))] ++
           map_of (heap s (fields_ref (form_state s))) \<and>
         heap (submit_form s) (next_addr s) = dump_value s \<and>
         form_type (form_state (submit_form s)) = Some ''registration'' \<and>
         heap (submit_form s) (fields_ref (form_state (submit_form s))) = [] \<and>
         form_query (submit_form s) = (Some ''registration'', [])"
proof -
  from assms have neq: "next_addr s \<noteq> fields_ref (form_state s)"
    by (simp add: heap_wf_def)
  show ?thesis
    using neq map_of_dump_value [OF assms]
    by (simp add: submit_form_sel submitted_json form_query_def)
       (simp add: submitted_resp_def)
qed

text \<open>Claim C5 at a session with one name filled in.\<close>

theorem submit_form_snapshot_witness:
  "heap_wf (fill_form_field ''John'' initial_session) \<and>
   model_results (submit_form (fill_form_field ''John'' initial_session)) =
     [[(''status'', RAtom (AStr ''filled'')), (''field'', RAtom (AStr ''name'')),
       (''value'', RAtom (AStr ''john''))],
      [(''status'', RAtom (AStr ''submitted'')), (''data'', RDict 1)]] \<and>
   heap (submit_form (fill_form_field ''John'' initial_session)) 1 =
     [(''form_type'', AStr ''registration''), (''name'', AStr ''john'')] \<and>
   heap (submit_form (fill_form_field ''John'' initial_session)) 0 = []"
proof -
  have wf: "heap_wf (fill_form_field ''John'' initial_session)"
    by code_simp
  have n: "next_addr (fill_form_field ''John'' initial_session) = 1"
    by code_simp
  have f: "fields_ref (form_state (submit_form (fill_form_field ''John'' initial_session))) = 0"
    by code_simp
  have d: "dump_value (fill_form_field ''John'' initial_session) =
      [(''form_type'', AStr ''registration''), (''name'', AStr ''john'')]"
    by code_simp
  have m: "model_results (fill_form_field ''John'' initial_session) =
      [[(''status'', RAtom (AStr ''filled'')), (''field'', RAtom (AStr ''name'')),
        (''value'', RAtom (AStr ''john''))]]"
    by code_simp
  from submit_form_snapshot [OF wf] show ?thesis
    by (simp add: wf n f d m)
qed

text \<open>
  Claim C7. Every tool call, on every branch (the error branch of \<open>fill_form_field\<close>
  included), passes exactly one result to the result callback and sends exactly one JSON
  document to the client; the document is the serialisation of that result.
\<close>

theorem tool_call_dual_output:
  "\<exists>r j. model_results (call_tool t s) = model_results s @ [r] \<and>
         ws_sent (call_tool t s) = ws_sent s @ [j] \<and>
         (heap_wf s \<longrightarrow> j = json_of_resp (heap (call_tool t s)) r)"
proof (cases t)
  case OpenForm
  then show ?thesis by (simp add: open_form_sel)
next
  case (FillFormField v)
  show ?thesis
  proof (cases "normalize v = []")
    case True
    then show ?thesis
      by (simp add: FillFormField fill_form_field_outputs_empty error_resp_def error_json)
  next
    case False
    then show ?thesis
      by (simp add: FillFormField fill_form_field_outputs_nonempty filled_json)
  qed
next
  case SubmitForm
  then show ?thesis
    by (auto simp: submit_form_sel submitted_json heap_wf_def)
qed

text \<open>Claim C7 on the error branch, from the initial session.\<close>

theorem tool_call_dual_output_witness:
  "heap_wf initial_session \<and>
   (\<exists>r j. model_results (call_tool (FillFormField ''   '') initial_session) =
             model_results initial_session @ [r] \<and>
          ws_sent (call_tool (FillFormField ''   '') initial_session) = ws_sent initial_session @ [j] \<and>
          j = json_of_resp (heap (call_tool (FillFormField ''   '') initial_session)) r)"
proof -
  have wf: "heap_wf initial_session"
    by (simp add: heap_wf_def initial_session_def)
  with tool_call_dual_output [of "FillFormField ''   ''" initial_session] show ?thesis
    by blast
qed

text \<open>
  Claim C10. In every state reached from the initial one by tool calls, the fields are
  empty whenever the form type is \<open>None\<close>, and the fields are non-empty only if the form
  type is \<open>registration\<close>; each handler preserves the first reading from any state.
\<close>

theorem form_inv_reachable:
  "form_inv (run_tools calls initial_session) \<and>
   fields_only_if_registration (run_tools calls initial_session) \<and>
   (form_inv s \<longrightarrow> form_inv (call_tool t s))"
  using run_tools_form_type [of calls] call_tool_form_type [of t s]
  by (auto simp: form_inv_def fields_only_if_registration_def)

text \<open>Claim C10 at the initial session and after one \<open>fill_form_field\<close>.\<close>

theorem form_inv_reachable_witness:
  "form_type (form_state (run_tools [] initial_session)) = None \<and>
   heap (run_tools [] initial_session) (fields_ref (form_state (run_tools [] initial_session))) = [] \<and>
   heap (run_tools [FillFormField ''John''] initial_session)
     (fields_ref (form_state (run_tools [FillFormField ''John''] initial_session))) =
     [(''name'', AStr ''john'')] \<and>
   form_type (form_state (run_tools [FillFormField ''John''] initial_session)) = Some ''registration''"
proof -
  have a: "form_type (form_state (run_tools [] initial_session)) = None"
    by code_simp
  have b: "heap (run_tools [FillFormField ''John''] initial_session)
     (fields_ref (form_state (run_tools [FillFormField ''John''] initial_session))) =
     [(''name'', AStr ''john'')]"
    by code_simp
  from form_inv_reachable [of "[]"] a
  have c: "heap (run_tools [] initial_session) (fields_ref (form_state (run_tools [] initial_session))) = []"
    by (simp add: form_inv_def)
  from form_inv_reachable [of "[FillFormField ''John'']"] b
  have d: "form_type (form_state (run_tools [FillFormField ''John''] initial_session)) = Some ''registration''"
    by (simp add: fields_only_if_registration_def)
  from a b c d show ?thesis by simp
qed

text \<open>
  Claim C2, as amended. When the normalised candidate is empty, \<open>fill_form_field\<close> passes
  \<open>{"error": "no_field_detected"}\<close> to the result callback and sends it to the client, and
  writes no field. With a form open, the form state and the heap are unchanged. With none
  open, the implicit \<open>open\<close> at the top of the handler has run: the form type is now
  \<open>registration\<close> and the fields are cleared, which leaves the fields as they were in every
  state that satisfies the invariant of claim C10.
\<close>

theorem fill_form_field_no_field_detected:
  assumes "normalize v = []"
  shows "model_results (fill_form_field v s) =
           model_results s @ [[(''error'', RAtom (AStr ''no_field_detected''))]] \<and>
         ws_sent (fill_form_field v s) = ws_sent s @ [JObj [(''error'', JStr ''no_field_detected'')]] \<and>
         fields_ref (form_state (fill_form_field v s)) = fields_ref (form_state s) \<and>
         (form_type (form_state s) \<noteq> None \<longrightarrow>
            form_state (fill_form_field v s) = form_state s \<and> heap (fill_form_field v s) = heap s) \<and>
         (form_type (form_state s) = None \<longrightarrow>
            form_type (form_state (fill_form_field v s)) = Some ''registration'' \<and>
            heap (fill_form_field v s) = (heap s)(fields_ref (form_state s) := [])) \<and>
         (form_inv s \<longrightarrow> heap (fill_form_field v s) = heap s)"
proof (cases "form_type (form_state s)")
  case None
  have inv: "form_inv s \<Longrightarrow> (heap s)(fields_ref (form_state s) := []) = heap s"
    using None by (simp add: form_inv_def fun_upd_idem)
  show ?thesis
    using None inv
    by (simp add: fill_form_field_outputs_empty [OF assms] fill_form_field_heap_empty [OF assms]
        fill_form_field_sel error_resp_def)
next
  case (Some x)
  have "form_state (fill_form_field v s) = form_state s"
    using Some by (simp add: fill_form_field_empty [OF assms] send_json_def result_callback_def)
  with Some show ?thesis
    by (simp add: fill_form_field_outputs_empty [OF assms] fill_form_field_heap_empty [OF assms]
        error_resp_def)
qed

text \<open>Claim C2 as amended, with no form open and with a form open.\<close>

theorem fill_form_field_no_field_detected_witness:
  "normalize ''   '' = [] \<and>
   model_results (fill_form_field ''   '' initial_session) =
     [[(''error'', RAtom (AStr ''no_field_detected''))]] \<and>
   ws_sent (fill_form_field ''   '' initial_session) = [JObj [(''error'', JStr ''no_field_detected'')]] \<and>
   form_type (form_state initial_session) = None \<and>
   form_type (form_state (fill_form_field ''   '' initial_session)) = Some ''registration'' \<and>
   heap (fill_form_field ''   '' initial_session) = heap initial_session \<and>
   form_type (form_state (fill_form_field ''John'' initial_session)) \<noteq> None \<and>
   form_state (fill_form_field ''   '' (fill_form_field ''John'' initial_session)) =
     form_state (fill_form_field ''John'' initial_session) \<and>
   heap (fill_form_field ''   '' (fill_form_field ''John'' initial_session)) =
     heap (fill_form_field ''John'' initial_session)"
proof -
  have e: "normalize ''   '' = []"
    by code_simp
  have i: "form_type (form_state initial_session) = None" "form_inv initial_session"
    "model_results initial_session = []" "ws_sent initial_session = []"
    by (simp_all add: initial_session_def form_inv_def)
  have j: "form_type (form_state (fill_form_field ''John'' initial_session)) \<noteq> None"
    by (simp add: fill_form_field_sel)
  note a = fill_form_field_no_field_detected [OF e, of initial_session]
  note b = fill_form_field_no_field_detected [OF e, of "fill_form_field ''John'' initial_session"]
  from a i have a1: "model_results (fill_form_field ''   '' initial_session) =
      [[(''error'', RAtom (AStr ''no_field_detected''))]]"
    and a2: "ws_sent (fill_form_field ''   '' initial_session) =
      [JObj [(''error'', JStr ''no_field_detected'')]]"
    and a3: "form_type (form_state (fill_form_field ''   '' initial_session)) = Some ''registration''"
    by simp_all
  from a i(2) have a4: "heap (fill_form_field ''   '' initial_session) = heap initial_session"
    by blast
  from b j have b1: "form_state (fill_form_field ''   '' (fill_form_field ''John'' initial_session)) =
      form_state (fill_form_field ''John'' initial_session)"
    and b2: "heap (fill_form_field ''   '' (fill_form_field ''John'' initial_session)) =
      heap (fill_form_field ''John'' initial_session)"
    by simp_all
  show ?thesis
    by (intro conjI e a1 a2 a3 a4 b1 b2 i(1) j)
qed

text \<open>
  Claim C2 as stated (no mutation at all) fails in the initial session: the input of three
  spaces normalises to the empty string, and the call changes the form type from \<open>None\<close> to
  \<open>registration\<close>.
\<close>

theorem fill_form_field_no_mutation_counterexample:
  "normalize ''   '' = [] \<and>
   form_state (fill_form_field ''   '' initial_session) \<noteq> form_state initial_session"
proof -
  have "normalize ''   '' = []"
    by code_simp
  moreover have "form_type (form_state (fill_form_field ''   '' initial_session)) \<noteq>
      form_type (form_state initial_session)"
    by (simp add: fill_form_field_sel initial_session_def)
  ultimately show ?thesis by metis
qed


section \<open>Claims about normalisation\<close>












section \<open>The receive loop\<close>












section \<open>The endpoint\<close>

text \<open>
  Claim C9. With the credential unset or empty, the endpoint accepts the connection, sends
  \<open>{"error": "GEMINI_API_KEY not set"}\<close>, closes with code 4401 and returns without an
  exception. No pipeline task is built, and no other connection's socket is touched.
\<close>

theorem missing_credential_closes_4401:
  assumes "api_key = None \<or> api_key = Some []"
  shows "websocket_endpoint api_key voice run c srv =
           (None,
            srv\<lparr>sockets := (sockets srv)
               (c := sockets srv c @
                  [Accept, SendJson (JObj [(''error'', JStr ''GEMINI_API_KEY not set'')]), Close 4401])\<rparr>) \<and>
         tasks (snd (websocket_endpoint api_key voice run c srv)) = tasks srv \<and>
         (\<forall>c'. c' \<noteq> c \<longrightarrow>
            sockets (snd (websocket_endpoint api_key voice run c srv)) c' = sockets srv c')"
  using assms by (auto simp: websocket_endpoint_def ws_call_def Let_def)

text \<open>Claim C9 for connection 7 of a server with no other traffic.\<close>

theorem missing_credential_closes_4401_witness:
  "websocket_endpoint None (Some ''Kore'') ([SendBytes ''ab''], Some OtherException) 7
     \<lparr>sockets = (\<lambda>_. []), tasks = Map.empty\<rparr> =
     (None,
      \<lparr>sockets = (\<lambda>_. [])
         (7 := [Accept, SendJson (JObj [(''error'', JStr ''GEMINI_API_KEY not set'')]), Close 4401]),
       tasks = Map.empty\<rparr>) \<and>
   sockets (snd (websocket_endpoint None (Some ''Kore'') ([SendBytes ''ab''], Some OtherException) 7
     \<lparr>sockets = (\<lambda>_. []), tasks = Map.empty\<rparr>)) 8 = []"
  using missing_credential_closes_4401
    [of None "Some ''Kore''" "([SendBytes ''ab''], Some OtherException)" 7
      "\<lparr>sockets = (\<lambda>_. []), tasks = Map.empty\<rparr>"]
  by simp

end
